theory Spec2Isabelle
  imports Main "HOL-Library.AList"
begin

section \<open>The timed test session of \<open>TCSStyleTestInterface\<close>\<close>

text \<open>
  The component \<open>TCSStyleTestInterface\<close> (second document of
  \<open>src/components/Test/DetailedTestReportModal.tsx\<close>) keeps the whole session in React state
  hooks. Each hook is a field of the record \<open>state\<close>. A handler that only sets hooks is a
  function on states; one that also calls a collaborator or awaits \<open>onSubmit\<close> is a function
  on the \<open>world\<close>: the state, the value stored in \<open>localStorage\<close> under the key
  \<open>test_progress_<test._id>\<close>, the log of calls on collaborators (\<open>onSubmit\<close>, \<open>onExit\<close>,
  \<open>alert\<close>, the console messages of the forced transitions and of submission errors), and
  the \<open>onSubmit\<close> promises not yet settled.
\<close>

subsection \<open>Test definition (props)\<close>

record question =
  q_id :: string

text \<open>The interface \<open>Section\<close>; \<open>section\<close> is a keyword of Isabelle.\<close>

record testSection =
  sectionName :: string
  sec_questions :: "question list"

text \<open>\<open>codingQuestions\<close> is typed \<open>any[]\<close>; the code reads \<open>_id\<close> and \<open>questionId\<close>, either of
  which may be missing.\<close>

record codingQuestion =
  cq_id :: "string option"
  cq_questionId :: "string option"

record test =
  t_id :: string
  hasSections :: bool
  sections :: "testSection list option"
  duration :: int
  questions :: "question list"
  hasCodingSection :: bool
  codingQuestions :: "codingQuestion list option"

subsection \<open>JavaScript truthiness\<close>

definition truthyStr :: "string option \<Rightarrow> bool" where
  "truthyStr v = (case v of None \<Rightarrow> False | Some a \<Rightarrow> a \<noteq> [])"

definition truthyBool :: "bool option \<Rightarrow> bool" where
  "truthyBool v = (case v of None \<Rightarrow> False | Some b \<Rightarrow> b)"

text \<open>\<open>cq._id || cq.questionId\<close>\<close>

definition codingKey :: "codingQuestion \<Rightarrow> string option" where
  "codingKey cq = (if truthyStr (cq_id cq) then cq_id cq else cq_questionId cq)"

text \<open>\<open>test.hasCodingSection && test.codingQuestions && test.codingQuestions.length > 0\<close>\<close>

definition hasCoding :: "test \<Rightarrow> bool" where
  "hasCoding t = (hasCodingSection t \<and>
     (case codingQuestions t of None \<Rightarrow> False | Some cqs \<Rightarrow> 0 < length cqs))"

subsection \<open>Session state (the \<open>useState\<close> hooks)\<close>

text \<open>
  \<open>answers\<close>, \<open>markedForReview\<close> and \<open>visitedQuestions\<close> are JavaScript objects used as
  dictionaries. They are association lists in insertion order, because
  \<open>Object.entries(answers)\<close> enumerates them: writing an existing key keeps its place, a new
  key goes to the end (\<open>AList.update\<close>), \<open>delete\<close> removes the key (\<open>AList.delete\<close>).
\<close>

record state =
  showInstructions :: bool
  agreedToTerms :: bool
  currentSectionIndex :: nat
  currentQuestionIndex :: nat
  answers :: "(string \<times> string) list"
  markedForReview :: "(string \<times> bool) list"
  visitedQuestions :: "(string \<times> bool) list"
  timeLeft :: int
  submitting :: bool
  showSectionComplete :: bool
  showSubmitConfirm :: bool
  showCodingSection :: bool
  mcqCompleted :: bool
  selectedCodingQuestionId :: "string option"
  codingSubmissions :: "(string \<times> int) list"
  violations :: nat

definition initialState :: "test \<Rightarrow> state" where
  "initialState t =
     \<lparr> showInstructions = True, agreedToTerms = False,
       currentSectionIndex = 0, currentQuestionIndex = 0,
       answers = [], markedForReview = [], visitedQuestions = [],
       timeLeft = duration t * 60, submitting = False,
       showSectionComplete = False, showSubmitConfirm = False, showCodingSection = False,
       mcqCompleted = False, selectedCodingQuestionId = None,
       codingSubmissions = [], violations = 0 \<rparr>"

text \<open>\<open>!!answers[id]\<close>, \<open>!!markedForReview[id]\<close>, \<open>!!visitedQuestions[id]\<close>\<close>

definition isAnswered :: "state \<Rightarrow> string \<Rightarrow> bool" where
  "isAnswered s i = truthyStr (map_of (answers s) i)"

definition isMarked :: "state \<Rightarrow> string \<Rightarrow> bool" where
  "isMarked s i = truthyBool (map_of (markedForReview s) i)"

definition isVisited :: "state \<Rightarrow> string \<Rightarrow> bool" where
  "isVisited s i = truthyBool (map_of (visitedQuestions s) i)"

subsection \<open>Navigation and answer ledger\<close>

definition getCurrentSection :: "test \<Rightarrow> state \<Rightarrow> testSection option" where
  "getCurrentSection t s =
     (if hasSections t then
        (case sections t of
           None \<Rightarrow> None
         | Some secs \<Rightarrow>
             if currentSectionIndex s < length secs then Some (secs ! currentSectionIndex s)
             else None)
      else None)"

definition getCurrentSectionQuestions :: "test \<Rightarrow> state \<Rightarrow> question list" where
  "getCurrentSectionQuestions t s =
     (case getCurrentSection t s of Some sec \<Rightarrow> sec_questions sec | None \<Rightarrow> questions t)"

definition getCurrentQuestion :: "test \<Rightarrow> state \<Rightarrow> question option" where
  "getCurrentQuestion t s =
     (let qs = getCurrentSectionQuestions t s in
      if currentQuestionIndex s < length qs then Some (qs ! currentQuestionIndex s) else None)"

definition handleAnswerSelect :: "string \<Rightarrow> string \<Rightarrow> state \<Rightarrow> state" where
  "handleAnswerSelect questionId answer s = s\<lparr>answers := AList.update questionId answer (answers s)\<rparr>"

definition handleClearResponse :: "test \<Rightarrow> state \<Rightarrow> state" where
  "handleClearResponse t s =
     (case getCurrentQuestion t s of
        None \<Rightarrow> s
      | Some currentQ \<Rightarrow>
          s\<lparr>answers := AList.delete (q_id currentQ) (answers s),
            markedForReview := AList.delete (q_id currentQ) (markedForReview s)\<rparr>)"

definition handleMarkForReview :: "test \<Rightarrow> state \<Rightarrow> state" where
  "handleMarkForReview t s =
     (case getCurrentQuestion t s of
        None \<Rightarrow> s
      | Some currentQ \<Rightarrow>
          s\<lparr>markedForReview :=
              AList.update (q_id currentQ) (\<not> isMarked s (q_id currentQ)) (markedForReview s)\<rparr>)"

text \<open>\<open>currentQuestionIndex < questions.length - 1\<close> is a comparison of JavaScript numbers, so
  it is written over \<open>int\<close>: with no questions the right-hand side is \<open>-1\<close>.\<close>

definition handleSaveAndNext :: "test \<Rightarrow> state \<Rightarrow> state" where
  "handleSaveAndNext t s =
     (let qs = getCurrentSectionQuestions t s in
      if int (currentQuestionIndex s) < int (length qs) - 1 then
        (let nextIndex = currentQuestionIndex s + 1 in
         s\<lparr>currentQuestionIndex := nextIndex,
           visitedQuestions := AList.update (q_id (qs ! nextIndex)) True (visitedQuestions s)\<rparr>)
      else s\<lparr>showSectionComplete := True\<rparr>)"

text \<open>Both calls are made from one render, so \<open>handleSaveAndNext\<close> reads the position that
  \<open>handleMarkForReview\<close> (which does not move it) also read.\<close>

definition handleMarkForReviewAndNext :: "test \<Rightarrow> state \<Rightarrow> state" where
  "handleMarkForReviewAndNext t s = handleSaveAndNext t (handleMarkForReview t s)"

text \<open>Out of range, \<open>questions[index]._id\<close> throws after \<open>setCurrentQuestionIndex(index)\<close> was
  queued: the index is set and nothing is marked visited.\<close>

definition handleNavigateToQuestion :: "test \<Rightarrow> nat \<Rightarrow> state \<Rightarrow> state" where
  "handleNavigateToQuestion t index s =
     (let qs = getCurrentSectionQuestions t s in
      if index < length qs then
        s\<lparr>currentQuestionIndex := index,
          visitedQuestions := AList.update (q_id (qs ! index)) True (visitedQuestions s)\<rparr>
      else s\<lparr>currentQuestionIndex := index\<rparr>)"

text \<open>The three lines \<open>const firstCoding = test.codingQuestions[0]; if (firstCoding)
  setSelectedCodingQuestionId(firstCoding._id || firstCoding.questionId)\<close>, which the source
  repeats wherever it enters the coding section.\<close>

definition selectFirstCoding :: "test \<Rightarrow> state \<Rightarrow> state" where
  "selectFirstCoding t s =
     (case codingQuestions t of
        Some (firstCoding # _) \<Rightarrow> s\<lparr>selectedCodingQuestionId := codingKey firstCoding\<rparr>
      | _ \<Rightarrow> s)"

definition handleNextSection :: "test \<Rightarrow> state \<Rightarrow> state" where
  "handleNextSection t s =
     (if hasSections t \<and>
         (case sections t of None \<Rightarrow> False
          | Some secs \<Rightarrow> int (currentSectionIndex s) < int (length secs) - 1)
      then
        (let s1 = s\<lparr>currentSectionIndex := currentSectionIndex s + 1,
                    currentQuestionIndex := 0,
                    showSectionComplete := False\<rparr>;
             nextSectionQuestions = sec_questions (the (sections t) ! (currentSectionIndex s + 1))
         in case nextSectionQuestions of
              [] \<Rightarrow> s1
            | q # _ \<Rightarrow> s1\<lparr>visitedQuestions := AList.update (q_id q) True (visitedQuestions s)\<rparr>)
      else if hasCoding t then
        selectFirstCoding t
          (s\<lparr>mcqCompleted := True, showSectionComplete := False, showCodingSection := True\<rparr>)
      else s\<lparr>showSubmitConfirm := True\<rparr>)"

datatype questionStatus = AnsweredMarked | Answered | Marked | NotAnswered | NotVisited

definition getQuestionStatus :: "state \<Rightarrow> question \<Rightarrow> questionStatus" where
  "getQuestionStatus s q =
     (let answered = isAnswered s (q_id q);
          marked = isMarked s (q_id q);
          visited = isVisited s (q_id q)
      in if answered \<and> marked then AnsweredMarked
         else if answered then Answered
         else if marked then Marked
         else if visited then NotAnswered
         else NotVisited)"

record sectionCounts =
  answered :: nat
  notAnswered :: nat
  marked :: nat
  notVisited :: nat

definition getSectionCounts :: "test \<Rightarrow> state \<Rightarrow> sectionCounts" where
  "getSectionCounts t s =
     (let qs = getCurrentSectionQuestions t s in
      \<lparr> answered = length (filter (\<lambda>q. isAnswered s (q_id q) \<and> \<not> isMarked s (q_id q)) qs),
        notAnswered = length (filter (\<lambda>q. \<not> isAnswered s (q_id q) \<and> isVisited s (q_id q)) qs),
        marked = length (filter (\<lambda>q. isMarked s (q_id q)) qs),
        notVisited = length (filter (\<lambda>q. \<not> isVisited s (q_id q)) qs) \<rparr>)"

definition handleCodingSubmit :: "string \<Rightarrow> int \<Rightarrow> state \<Rightarrow> state" where
  "handleCodingSubmit submissionId score s =
     s\<lparr>codingSubmissions := codingSubmissions s @ [(submissionId, score)]\<rparr>"

subsection \<open>Checkpoint in \<open>localStorage\<close>\<close>

text \<open>
  The record written by \<open>handleBeforeUnload\<close>. Every field is optional on read
  (\<open>progress.answers || {}\<close> and so on), so every field is an option. \<open>JSON.stringify\<close>
  followed by \<open>JSON.parse\<close> is taken to give back the same dictionaries, numbers, booleans and
  strings; a stored text that \<open>JSON.parse\<close> rejects is \<open>Unparsable\<close>.
\<close>

record checkpoint =
  cp_answers :: "(string \<times> string) list option"
  cp_markedForReview :: "(string \<times> bool) list option"
  cp_visitedQuestions :: "(string \<times> bool) list option"
  cp_currentSectionIndex :: "nat option"
  cp_currentQuestionIndex :: "nat option"
  cp_violations :: "nat option"
  cp_timeLeft :: "int option"
  cp_mcqCompleted :: "bool option"
  cp_selectedCodingQuestionId :: "string option"
  cp_codingSubmissions :: "(string \<times> int) list option"
  cp_testStartTime :: "int option"

datatype stored = Unparsable | Parsed checkpoint

text \<open>The object literal passed to \<open>JSON.stringify\<close>.\<close>

definition snapshot :: "int \<Rightarrow> state \<Rightarrow> checkpoint" where
  "snapshot startTime s =
     \<lparr> cp_answers = Some (answers s),
       cp_markedForReview = Some (markedForReview s),
       cp_visitedQuestions = Some (visitedQuestions s),
       cp_currentSectionIndex = Some (currentSectionIndex s),
       cp_currentQuestionIndex = Some (currentQuestionIndex s),
       cp_violations = Some (violations s),
       cp_timeLeft = Some (timeLeft s),
       cp_mcqCompleted = Some (mcqCompleted s),
       cp_selectedCodingQuestionId = selectedCodingQuestionId s,
       cp_codingSubmissions = Some (codingSubmissions s),
       cp_testStartTime = Some startTime \<rparr>"

definition handleBeforeUnload :: "int \<Rightarrow> state \<Rightarrow> stored option \<Rightarrow> stored option" where
  "handleBeforeUnload startTime s storage =
     (if \<not> showInstructions s \<and> \<not> submitting s then Some (Parsed (snapshot startTime s))
      else storage)"

text \<open>The body of the restore effect: \<open>x || d\<close> gives \<open>d\<close> when \<open>x\<close> is missing or falsy
  (\<open>0\<close>, \<open>false\<close>, the empty string).\<close>

definition restoreProgress :: "stored option \<Rightarrow> state \<Rightarrow> state" where
  "restoreProgress savedProgress s =
     (if showInstructions s then
        (case savedProgress of
           None \<Rightarrow> s
         | Some Unparsable \<Rightarrow> s
         | Some (Parsed progress) \<Rightarrow>
             s\<lparr>answers := (case cp_answers progress of Some a \<Rightarrow> a | None \<Rightarrow> []),
               markedForReview := (case cp_markedForReview progress of Some m \<Rightarrow> m | None \<Rightarrow> []),
               visitedQuestions := (case cp_visitedQuestions progress of Some v \<Rightarrow> v | None \<Rightarrow> []),
               currentSectionIndex := (case cp_currentSectionIndex progress of Some i \<Rightarrow> i | None \<Rightarrow> 0),
               currentQuestionIndex := (case cp_currentQuestionIndex progress of Some i \<Rightarrow> i | None \<Rightarrow> 0),
               violations := (case cp_violations progress of Some n \<Rightarrow> n | None \<Rightarrow> 0),
               mcqCompleted := (case cp_mcqCompleted progress of Some b \<Rightarrow> b | None \<Rightarrow> False),
               selectedCodingQuestionId :=
                 (if truthyStr (cp_selectedCodingQuestionId progress)
                  then cp_selectedCodingQuestionId progress else None)\<rparr>)
      else s)"

subsection \<open>Collaborators and the world around the component\<close>

record answerEntry =
  questionId :: string
  selectedAnswer :: string
  timeSpent :: "int option"

datatype consoleMsg =
    TimeExpiredToCoding
  | ViolationsToCoding
  | ViolationsAutoSubmit
  | SubmitError
  | AutoSubmitError

datatype alertMsg =
    AcceptTerms
  | ViolationWarning nat
  | ViolationLimitExceeded
  | SubmitFailed

datatype effect =
    Alert alertMsg
  | Console consoleMsg
  | OnSubmit "answerEntry list" int "(string \<times> int) list"
  | OnExit

text \<open>Which \<open>await onSubmit(...)\<close> a pending call belongs to.\<close>

datatype continuation = InHandleSubmit | InAutoSubmitTest

text \<open>What \<open>if (document.fullscreenElement) await document.exitFullscreen()\<close> meets.\<close>

datatype fullscreen = NotFullscreen | ExitResolves | ExitRejects

text \<open>
  \<open>timerRender\<close> is the render whose closure the interval callback holds. The timer effect has
  the dependency list \<open>[showInstructions]\<close>, so the interval is created once, by the render in
  which \<open>showInstructions\<close> became false, and \<open>handleAutoSubmit\<close> inside it is the function of
  that render: it reads that render's \<open>submitting\<close>, \<open>mcqCompleted\<close>, \<open>answers\<close> and
  \<open>codingSubmissions\<close>. Its \<open>set...\<close> calls act on the current state all the same.
\<close>

record world =
  st :: state
  storage :: "stored option"
  log :: "effect list"
  pending :: "continuation list"
  timerRender :: state

definition upd :: "(state \<Rightarrow> state) \<Rightarrow> world \<Rightarrow> world" where
  "upd f w = w\<lparr>st := f (st w)\<rparr>"

definition emit :: "effect \<Rightarrow> world \<Rightarrow> world" where
  "emit e w = w\<lparr>log := log w @ [e]\<rparr>"

text \<open>Mount: the hooks take their initial values and the restore effect runs once.\<close>

definition mount :: "test \<Rightarrow> stored option \<Rightarrow> world" where
  "mount t savedProgress =
     \<lparr> st = restoreProgress savedProgress (initialState t),
       storage = savedProgress, log = [], pending = [],
       timerRender = initialState t \<rparr>"

subsection \<open>Final submission\<close>

text \<open>\<open>answers[question._id] || ''\<close>\<close>

definition answerOrEmpty :: "(string \<times> string) list \<Rightarrow> string \<Rightarrow> string" where
  "answerOrEmpty al i = (case map_of al i of None \<Rightarrow> [] | Some a \<Rightarrow> a)"

definition allQuestions :: "test \<Rightarrow> question list" where
  "allQuestions t =
     (case sections t of
        Some secs \<Rightarrow> if hasSections t then concat (map sec_questions secs) else questions t
      | None \<Rightarrow> questions t)"

definition submissionAnswers :: "test \<Rightarrow> state \<Rightarrow> answerEntry list" where
  "submissionAnswers t r =
     map (\<lambda>question. \<lparr> questionId = q_id question,
                        selectedAnswer = answerOrEmpty (answers r) (q_id question),
                        timeSpent = Some 0 \<rparr>) (allQuestions t)"

text \<open>The \<open>catch\<close> block of \<open>handleSubmit\<close>.\<close>

definition handleSubmit_rejected :: "world \<Rightarrow> world" where
  "handleSubmit_rejected w =
     upd (\<lambda>s. s\<lparr>submitting := False, showSubmitConfirm := False\<rparr>)
       (emit (Alert SubmitFailed) (emit (Console SubmitError) w))"

text \<open>The statements after \<open>await onSubmit(...)\<close>.\<close>

definition handleSubmit_resolved :: "world \<Rightarrow> world" where
  "handleSubmit_resolved w =
     emit OnExit
       (upd (\<lambda>s. s\<lparr>showSubmitConfirm := False, submitting := False\<rparr>) (w\<lparr>storage := None\<rparr>))"

text \<open>
  \<open>handleSubmit\<close> up to \<open>await onSubmit(...)\<close>. \<open>r\<close> is the render the function belongs to
  (what it reads), \<open>w\<close> the world it acts on; times are in milliseconds.
  \<open>Math.floor(ms / 1000 / 60)\<close> is the integer quotient by 60000.
\<close>

definition handleSubmit :: "test \<Rightarrow> int \<Rightarrow> int \<Rightarrow> fullscreen \<Rightarrow> state \<Rightarrow> world \<Rightarrow> world" where
  "handleSubmit t startTime now fs r w =
     (if submitting r then w
      else
        (let w1 = upd (\<lambda>s. s\<lparr>submitting := True\<rparr>) w;
             timeSpent = (now - startTime) div 60000
         in if fs = ExitRejects then handleSubmit_rejected w1
            else (emit (OnSubmit (submissionAnswers t r) timeSpent (codingSubmissions r)) w1)
                   \<lparr>pending := pending w1 @ [InHandleSubmit]\<rparr>))"

definition handleAutoSubmit :: "test \<Rightarrow> int \<Rightarrow> int \<Rightarrow> fullscreen \<Rightarrow> state \<Rightarrow> world \<Rightarrow> world" where
  "handleAutoSubmit t startTime now fs r w =
     (if submitting r then w
      else if \<not> mcqCompleted r \<and> hasCoding t then
        upd (selectFirstCoding t)
          (upd (\<lambda>s. s\<lparr>mcqCompleted := True, showCodingSection := True\<rparr>)
             (emit (Console TimeExpiredToCoding) w))
      else handleSubmit t startTime now fs r w)"

subsection \<open>Clock\<close>

text \<open>The updater passed to \<open>setTimeLeft\<close>: the new value, and whether it called
  \<open>handleAutoSubmit()\<close>.\<close>

definition timerUpdater :: "int \<Rightarrow> int \<times> bool" where
  "timerUpdater prev = (if prev \<le> 1 then (0, True) else (prev - 1, False))"

text \<open>One firing of the interval. The interval exists while \<open>showInstructions\<close> is false and
  is cleared only by the effect's cleanup.\<close>

definition tick :: "test \<Rightarrow> int \<Rightarrow> int \<Rightarrow> fullscreen \<Rightarrow> world \<Rightarrow> world" where
  "tick t startTime now fs w =
     (if showInstructions (st w) then w
      else
        (let (next, expired) = timerUpdater (timeLeft (st w));
             w1 = (if expired then handleAutoSubmit t startTime now fs (timerRender w) w else w)
         in upd (\<lambda>s. s\<lparr>timeLeft := next\<rparr>) w1))"

subsection \<open>Violations\<close>

definition violationAlert :: "nat \<Rightarrow> alertMsg" where
  "violationAlert newViolations =
     (if 3 \<le> newViolations then ViolationLimitExceeded else ViolationWarning newViolations)"

definition handleVisibilityChange :: "world \<Rightarrow> world" where
  "handleVisibilityChange w =
     (if showInstructions (st w) then w
      else
        (let newViolations = violations (st w) + 1
         in upd (\<lambda>s. s\<lparr>violations := newViolations\<rparr>) (emit (Alert (violationAlert newViolations)) w)))"

text \<open>\<open>Object.entries(answers).map(([questionId, selectedAnswer]) => ({questionId,
  selectedAnswer}))\<close>\<close>

definition answerArray :: "state \<Rightarrow> answerEntry list" where
  "answerArray s =
     map (\<lambda>(qid, a). \<lparr> questionId = qid, selectedAnswer = a, timeSpent = None \<rparr>) (answers s)"

definition autoSubmitTest_resolved :: "world \<Rightarrow> world" where
  "autoSubmitTest_resolved w =
     emit OnExit (upd (\<lambda>s. s\<lparr>submitting := False\<rparr>) (w\<lparr>storage := None\<rparr>))"

definition autoSubmitTest_rejected :: "world \<Rightarrow> world" where
  "autoSubmitTest_rejected w =
     upd (\<lambda>s. s\<lparr>submitting := False\<rparr>) (emit (Console AutoSubmitError) w)"

text \<open>\<open>autoSubmitTest\<close> up to \<open>await onSubmit(...)\<close>; the effect that defines it has every
  value it reads in its dependency list, so it reads the current state.\<close>

definition autoSubmitTest :: "test \<Rightarrow> int \<Rightarrow> int \<Rightarrow> world \<Rightarrow> world" where
  "autoSubmitTest t startTime now w =
     (let w1 = upd (\<lambda>s. s\<lparr>submitting := True\<rparr>) w
      in if hasCoding t then
           upd (\<lambda>s. s\<lparr>submitting := False\<rparr>)
             (upd (selectFirstCoding t)
                (upd (\<lambda>s. s\<lparr>mcqCompleted := True, showCodingSection := True\<rparr>)
                   (emit (Console ViolationsToCoding) w1)))
         else
           (let timeSpent = (now - startTime) div 1000
            in (emit (OnSubmit (answerArray (st w)) timeSpent (codingSubmissions (st w)))
                  (emit (Console ViolationsAutoSubmit) w1))
                 \<lparr>pending := pending w1 @ [InAutoSubmitTest]\<rparr>))"

text \<open>The effect "auto-submit when violations >= 3": it runs after every render in which one
  of its dependencies changed, and acts when its guard holds.\<close>

definition violationEffect :: "test \<Rightarrow> int \<Rightarrow> int \<Rightarrow> world \<Rightarrow> world" where
  "violationEffect t startTime now w =
     (if 3 \<le> violations (st w) \<and> \<not> showInstructions (st w) \<and> \<not> submitting (st w)
         \<and> \<not> mcqCompleted (st w)
      then autoSubmitTest t startTime now w else w)"


subsection \<open>Starting the test\<close>

text \<open>
  \<open>handleStartTest\<close>. Entering fullscreen is best-effort and changes no hook. The first
  question is marked visited by \<open>setVisitedQuestions({ [firstQuestion._id]: true })\<close>, which
  replaces the dictionary.
\<close>

definition handleStartTest :: "test \<Rightarrow> world \<Rightarrow> world" where
  "handleStartTest t w =
     (if \<not> agreedToTerms (st w) then emit (Alert AcceptTerms) w
      else
        (let qs = getCurrentSectionQuestions t (st w);
             w1 = upd (\<lambda>s. s\<lparr>showInstructions := False\<rparr>) w
         in case qs of
              [] \<Rightarrow>
                if hasCoding t then
                  upd (selectFirstCoding t)
                    (upd (\<lambda>s. s\<lparr>showCodingSection := True, mcqCompleted := True\<rparr>) w1)
                else w1
            | firstQuestion # _ \<Rightarrow>
                upd (\<lambda>s. s\<lparr>visitedQuestions := [(q_id firstQuestion, True)]\<rparr>) w1))"

subsection \<open>The rendered view and the events it offers\<close>

datatype view = InstructionsView | CodingView | LoadingView | McqView

text \<open>The chain of early returns at the end of the component.\<close>

definition currentView :: "test \<Rightarrow> state \<Rightarrow> view" where
  "currentView t s =
     (if showInstructions s then InstructionsView
      else if showCodingSection s then CodingView
      else if getCurrentQuestion t s = None then LoadingView
      else McqView)"

text \<open>The option keys of a question, the values of the radio inputs.\<close>

definition optionKeys :: "string list" where
  "optionKeys = [''A'', ''B'', ''C'', ''D'']"

text \<open>The \<open>onClick\<close> of the button in the header of the question view.\<close>

definition headerButtonClick :: "test \<Rightarrow> state \<Rightarrow> state" where
  "headerButtonClick t s =
     (if hasCoding t then
        selectFirstCoding t (s\<lparr>mcqCompleted := True, showCodingSection := True\<rparr>)
      else s\<lparr>showSubmitConfirm := True\<rparr>)"

datatype event =
    ToggleAgree bool
  | StartTest
  | ExitClick
  | Tick fullscreen
  | Hide
  | BeforeUnload
  | AnswerSelect string
  | ClearResponse
  | MarkForReviewAndNext
  | SaveAndNext
  | Previous
  | NavigateTo nat
  | ReviewAnswers
  | NextSection
  | HeaderButton
  | CodingSubmitButton
  | SelectCoding nat
  | CodingSubmit string int
  | CancelSubmit
  | ConfirmSubmit fullscreen
  | Settle bool

text \<open>Settling the oldest pending \<open>onSubmit\<close> promise: resolved (\<open>True\<close>) or rejected.\<close>

definition settle :: "bool \<Rightarrow> world \<Rightarrow> world" where
  "settle ok w =
     (case pending w of
        [] \<Rightarrow> w
      | k # ks \<Rightarrow>
          (let w1 = w\<lparr>pending := ks\<rparr>
           in case k of
                InHandleSubmit \<Rightarrow> if ok then handleSubmit_resolved w1 else handleSubmit_rejected w1
              | InAutoSubmitTest \<Rightarrow>
                  if ok then autoSubmitTest_resolved w1 else autoSubmitTest_rejected w1))"

text \<open>
  One event, at wall-clock time \<open>now\<close>. A control acts only in the view that renders it and
  when it is not disabled; the two dialogs are part of the question view. Handlers bound in
  the JSX belong to the current render, so they read the current state; the interval reads
  \<open>timerRender\<close>. With the batching of React 18 the updates of \<open>handleStartTest\<close> are one
  render, and that render creates the interval.
\<close>

definition handle :: "test \<Rightarrow> int \<Rightarrow> int \<Rightarrow> event \<Rightarrow> world \<Rightarrow> world" where
  "handle t startTime now e w =
     (let s = st w; v = currentView t s in
      case e of
        ToggleAgree b \<Rightarrow> if v = InstructionsView then upd (\<lambda>s. s\<lparr>agreedToTerms := b\<rparr>) w else w
      | StartTest \<Rightarrow>
          if v = InstructionsView \<and> agreedToTerms s
          then (let w1 = handleStartTest t w in w1\<lparr>timerRender := st w1\<rparr>) else w
      | ExitClick \<Rightarrow> if v = InstructionsView then emit OnExit w else w
      | Tick fs \<Rightarrow> tick t startTime now fs w
      | Hide \<Rightarrow> handleVisibilityChange w
      | BeforeUnload \<Rightarrow> w\<lparr>storage := handleBeforeUnload startTime s (storage w)\<rparr>
      | AnswerSelect a \<Rightarrow>
          (case getCurrentQuestion t s of
             Some currentQuestion \<Rightarrow>
               if v = McqView \<and> a \<in> set optionKeys
               then upd (handleAnswerSelect (q_id currentQuestion) a) w else w
           | None \<Rightarrow> w)
      | ClearResponse \<Rightarrow>
          (case getCurrentQuestion t s of
             Some currentQuestion \<Rightarrow>
               if v = McqView \<and> isAnswered s (q_id currentQuestion)
               then upd (handleClearResponse t) w else w
           | None \<Rightarrow> w)
      | MarkForReviewAndNext \<Rightarrow> if v = McqView then upd (handleMarkForReviewAndNext t) w else w
      | SaveAndNext \<Rightarrow> if v = McqView then upd (handleSaveAndNext t) w else w
      | Previous \<Rightarrow>
          if v = McqView \<and> 0 < currentQuestionIndex s
          then upd (handleNavigateToQuestion t (currentQuestionIndex s - 1)) w else w
      | NavigateTo index \<Rightarrow>
          if v = McqView \<and> index < length (getCurrentSectionQuestions t s)
          then upd (handleNavigateToQuestion t index) w else w
      | ReviewAnswers \<Rightarrow>
          if v = McqView \<and> showSectionComplete s
          then upd (\<lambda>s. s\<lparr>showSectionComplete := False\<rparr>) w else w
      | NextSection \<Rightarrow>
          if v = McqView \<and> showSectionComplete s then upd (handleNextSection t) w else w
      | HeaderButton \<Rightarrow> if v = McqView then upd (headerButtonClick t) w else w
      | CodingSubmitButton \<Rightarrow>
          if v = CodingView then upd (\<lambda>s. s\<lparr>showSubmitConfirm := True\<rparr>) w else w
      | SelectCoding i \<Rightarrow>
          (case codingQuestions t of
             Some cqs \<Rightarrow>
               if v = CodingView \<and> i < length cqs
               then upd (\<lambda>s. s\<lparr>selectedCodingQuestionId := codingKey (cqs ! i)\<rparr>) w else w
           | None \<Rightarrow> w)
      | CodingSubmit submissionId score \<Rightarrow>
          if v = CodingView \<and> truthyStr (selectedCodingQuestionId s)
          then upd (handleCodingSubmit submissionId score) w else w
      | CancelSubmit \<Rightarrow>
          if v = McqView \<and> showSubmitConfirm s \<and> \<not> submitting s
          then upd (\<lambda>s. s\<lparr>showSubmitConfirm := False\<rparr>) w else w
      | ConfirmSubmit fs \<Rightarrow>
          if v = McqView \<and> showSubmitConfirm s \<and> \<not> submitting s
          then handleSubmit t startTime now fs s w else w
      | Settle ok \<Rightarrow> settle ok w)"

definition step :: "test \<Rightarrow> int \<Rightarrow> int \<times> event \<Rightarrow> world \<Rightarrow> world" where
  "step t startTime ne w = violationEffect t startTime (fst ne) (handle t startTime (fst ne) (snd ne) w)"

text \<open>A session: the events after mount, each with its time.\<close>

fun run :: "test \<Rightarrow> int \<Rightarrow> (int \<times> event) list \<Rightarrow> world \<Rightarrow> world" where
  "run t startTime [] w = w"
| "run t startTime (ne # rest) w = run t startTime rest (step t startTime ne w)"

text \<open>Observations on the log.\<close>

definition forcedTransitions :: "world \<Rightarrow> nat" where
  "forcedTransitions w =
     length (filter (\<lambda>e. e = Console TimeExpiredToCoding \<or> e = Console ViolationsToCoding) (log w))"

definition violationTransitions :: "world \<Rightarrow> nat" where
  "violationTransitions w = length (filter (\<lambda>e. e = Console ViolationsToCoding) (log w))"

text \<open>The violation effect has forced the transition at most once, and only with
  \<open>mcqCompleted\<close> set afterwards.\<close>

definition violationOnce :: "world \<Rightarrow> bool" where
  "violationOnce w =
     (violationTransitions w \<le> 1 \<and> (mcqCompleted (st w) \<or> violationTransitions w = 0))"

fun isOnSubmit :: "effect \<Rightarrow> bool" where
  "isOnSubmit (OnSubmit a m c) = True"
| "isOnSubmit _ = False"

definition submissions :: "world \<Rightarrow> effect list" where
  "submissions w = filter isOnSubmit (log w)"

subsection \<open>Invariant of the submission guard\<close>

text \<open>
  Before the start nothing is being submitted and neither the confirmation dialog nor the
  coding section is shown; the same holds while a test with a coding section has not
  completed its questions; and the render held by the interval was not submitting and
  had not completed the questions unless the session has by now.
\<close>

definition sessionInv :: "test \<Rightarrow> world \<Rightarrow> bool" where
  "sessionInv t w =
     ((showInstructions (st w) \<longrightarrow>
         \<not> submitting (st w) \<and> \<not> showSubmitConfirm (st w) \<and> \<not> showCodingSection (st w)) \<and>
      (hasCoding t \<and> \<not> mcqCompleted (st w) \<longrightarrow>
         \<not> submitting (st w) \<and> \<not> showSubmitConfirm (st w) \<and> \<not> showCodingSection (st w)) \<and>
      (\<not> showInstructions (st w) \<longrightarrow>
         \<not> submitting (timerRender w) \<and>
         (mcqCompleted (timerRender w) \<longrightarrow> mcqCompleted (st w))))"

subsection \<open>Invariant of the answer ledger\<close>

text \<open>
  Before the start there are no answers and the position is the first question of the first
  section; afterwards every key of \<open>answers\<close> is visited and so is the current question.
\<close>

definition answeredVisited :: "state \<Rightarrow> bool" where
  "answeredVisited s = list_all (\<lambda>(q, a). isVisited s q) (answers s)"

definition ledgerInv :: "test \<Rightarrow> state \<Rightarrow> bool" where
  "ledgerInv t s =
     (if showInstructions s
      then answers s = [] \<and> currentSectionIndex s = 0 \<and> currentQuestionIndex s = 0
      else answeredVisited s \<and>
           (case getCurrentQuestion t s of None \<Rightarrow> True | Some q \<Rightarrow> isVisited s (q_id q)))"

subsection \<open>Tests used in examples\<close>

text \<open>Three questions, no sections, no coding section, one minute.\<close>

definition flatTest :: test where
  "flatTest =
     \<lparr> t_id = ''t1'', hasSections = False, sections = None, duration = 1,
       questions = [\<lparr>q_id = ''q1''\<rparr>, \<lparr>q_id = ''q2''\<rparr>, \<lparr>q_id = ''q3''\<rparr>],
       hasCodingSection = False, codingQuestions = None \<rparr>"

text \<open>Two sections of three questions each, no coding section (the scenario of the
  specification's section 8).\<close>

definition sectionedTest :: test where
  "sectionedTest =
     \<lparr> t_id = ''t2'', hasSections = True,
       sections = Some
         [\<lparr>sectionName = ''S1'',
            sec_questions = [\<lparr>q_id = ''q1''\<rparr>, \<lparr>q_id = ''q2''\<rparr>, \<lparr>q_id = ''q3''\<rparr>]\<rparr>,
          \<lparr>sectionName = ''S2'',
            sec_questions = [\<lparr>q_id = ''q4''\<rparr>, \<lparr>q_id = ''q5''\<rparr>, \<lparr>q_id = ''q6''\<rparr>]\<rparr>],
       duration = 1, questions = [],
       hasCodingSection = False, codingQuestions = None \<rparr>"

text \<open>One question and two coding questions, one minute.\<close>

definition codingTest :: test where
  "codingTest =
     \<lparr> t_id = ''t3'', hasSections = False, sections = None, duration = 1,
       questions = [\<lparr>q_id = ''q1''\<rparr>],
       hasCodingSection = True,
       codingQuestions = Some [\<lparr>cq_id = Some ''c1'', cq_questionId = None\<rparr>,
                               \<lparr>cq_id = Some ''c2'', cq_questionId = None\<rparr>] \<rparr>"

text \<open>A test whose coding question has no \<open>_id\<close> and the empty string as \<open>questionId\<close>.\<close>

definition emptyKeyTest :: test where
  "emptyKeyTest =
     \<lparr> t_id = ''t4'', hasSections = False, sections = None, duration = 1,
       questions = [\<lparr>q_id = ''q1''\<rparr>],
       hasCodingSection = True,
       codingQuestions = Some [\<lparr>cq_id = None, cq_questionId = Some []\<rparr>] \<rparr>"

text \<open>The user accepts the terms and starts, at time 0.\<close>

definition acceptAndStart :: "(int \<times> event) list" where
  "acceptAndStart = [(0, ToggleAgree True), (0, StartTest)]"

text \<open>\<open>n\<close> firings of the interval, one second apart, the first at \<open>t0\<close> milliseconds.\<close>

fun ticks :: "nat \<Rightarrow> int \<Rightarrow> (int \<times> event) list" where
  "ticks 0 t0 = []"
| "ticks (Suc n) t0 = (t0, Tick NotFullscreen) # ticks n (t0 + 1000)"

text \<open>Worlds used in witnesses.\<close>

definition codingAtLastSecond :: world where
  "codingAtLastSecond =
     run codingTest 0 (acceptAndStart @ [(1000, Hide), (2000, Hide)] @ ticks 59 3000)
       (mount codingTest None)"

definition flatAwaitingSubmit :: world where
  "flatAwaitingSubmit =
     run flatTest 0
       (acceptAndStart @ [(1000, HeaderButton), (2000, ConfirmSubmit NotFullscreen)])
       (mount flatTest None)"

definition flatAfterTwoAnswers :: world where
  "flatAfterTwoAnswers =
     run flatTest 0
       (acceptAndStart @ [(1000, AnswerSelect ''A''), (2000, SaveAndNext), (3000, AnswerSelect ''B'')])
       (mount flatTest None)"

text \<open>A resumed session: the checkpoint of \<open>flatAfterTwoAnswers\<close> is stored, the user starts
  again, asks to submit and confirms; the call of \<open>onSubmit\<close> is pending.\<close>

definition flatResumedAwaitingSubmit :: world where
  "flatResumedAwaitingSubmit =
     run flatTest 0
       (acceptAndStart @ [(1000, HeaderButton), (2000, ConfirmSubmit NotFullscreen)])
       (mount flatTest (storage (run flatTest 0 [(4000, BeforeUnload)] flatAfterTwoAnswers)))"

text \<open>Two tab-hides, a confirmed submission, and the third tab-hide while it is pending.\<close>

definition flatPendingThirdHide :: world where
  "flatPendingThirdHide =
     run flatTest 0
       (acceptAndStart @ [(1000, Hide), (2000, Hide), (3000, HeaderButton),
          (4000, ConfirmSubmit NotFullscreen), (5000, Hide)])
       (mount flatTest None)"

text \<open>Three tab-hides, and the \<open>onSubmit\<close> call of the violation auto-submit rejected.\<close>

definition flatViolationRejected :: world where
  "flatViolationRejected =
     run flatTest 0
       (acceptAndStart @ [(1000, Hide), (2000, Hide), (3000, Hide), (4000, Settle False)])
       (mount flatTest None)"



section \<open>Properties\<close>

subsection \<open>Projections\<close>

lemma upd_simps [simp]:
  "st (upd f w) = f (st w)" "storage (upd f w) = storage w" "log (upd f w) = log w"
  "pending (upd f w) = pending w" "timerRender (upd f w) = timerRender w"
  by (simp_all add: upd_def)

lemma emit_simps [simp]:
  "st (emit e w) = st w" "storage (emit e w) = storage w" "log (emit e w) = log w @ [e]"
  "pending (emit e w) = pending w" "timerRender (emit e w) = timerRender w"
  by (simp_all add: emit_def)

lemma selectFirstCoding_frame [simp]:
  "showInstructions (selectFirstCoding t s) = showInstructions s"
  "submitting (selectFirstCoding t s) = submitting s"
  "showSubmitConfirm (selectFirstCoding t s) = showSubmitConfirm s"
  "showCodingSection (selectFirstCoding t s) = showCodingSection s"
  "mcqCompleted (selectFirstCoding t s) = mcqCompleted s"
  "currentSectionIndex (selectFirstCoding t s) = currentSectionIndex s"
  "violations (selectFirstCoding t s) = violations s"
  "timeLeft (selectFirstCoding t s) = timeLeft s"
  by (simp_all add: selectFirstCoding_def split: option.split list.split)

lemma selectFirstCoding_selects:
  "codingQuestions t = Some (c # cs) \<Longrightarrow>
   selectedCodingQuestionId (selectFirstCoding t s) = codingKey c"
  by (simp add: selectFirstCoding_def)

lemma hasCoding_first: "hasCoding t \<Longrightarrow> \<exists>c cs. codingQuestions t = Some (c # cs)"
  by (cases "codingQuestions t") (auto simp add: hasCoding_def neq_Nil_conv)

subsection \<open>The guard invariant holds in every session\<close>

lemma sessionInv_mount: "sessionInv t (mount t saved)"
  by (simp add: sessionInv_def mount_def restoreProgress_def initialState_def
      split: option.split stored.split)

lemma sessionInv_violationEffect:
  "sessionInv t w \<Longrightarrow> sessionInv t (violationEffect t startTime now w)"
  by (auto simp add: sessionInv_def violationEffect_def autoSubmitTest_def Let_def)

lemma sessionInv_tick:
  assumes "sessionInv t w"
  shows "sessionInv t (tick t startTime now fs w)"
proof (cases "showInstructions (st w)")
  case True
  with assms show ?thesis by (simp add: tick_def)
next
  case started: False
  show ?thesis
  proof (cases "timeLeft (st w) \<le> 1")
    case True
    with started have "tick t startTime now fs w =
        upd (\<lambda>s. s\<lparr>timeLeft := 0\<rparr>) (handleAutoSubmit t startTime now fs (timerRender w) w)"
      by (simp add: tick_def timerUpdater_def)
    with assms started show ?thesis
      by (auto simp add: sessionInv_def handleAutoSubmit_def handleSubmit_def
          handleSubmit_rejected_def Let_def)
  next
    case False
    with assms started show ?thesis
      by (simp add: tick_def timerUpdater_def sessionInv_def)
  qed
qed

lemma sessionInv_settle:
  "sessionInv t w \<Longrightarrow> sessionInv t (settle ok w)"
  by (auto simp add: sessionInv_def settle_def Let_def handleSubmit_resolved_def
      handleSubmit_rejected_def autoSubmitTest_resolved_def autoSubmitTest_rejected_def
      split: list.split continuation.split)

lemma sessionInv_handle:
  assumes "sessionInv t w"
  shows "sessionInv t (handle t startTime now e w)"
proof (cases e)
  case (Tick fs)
  with assms show ?thesis by (simp add: handle_def Let_def sessionInv_tick)
next
  case (Settle ok)
  with assms show ?thesis by (simp add: handle_def Let_def sessionInv_settle)
next
  case StartTest
  with assms show ?thesis
    by (auto simp add: handle_def Let_def sessionInv_def handleStartTest_def currentView_def
        split: list.split)
next
  case (ConfirmSubmit fs)
  with assms show ?thesis
    by (auto simp add: handle_def Let_def sessionInv_def handleSubmit_def
        handleSubmit_rejected_def currentView_def split: if_splits)
qed (use assms in \<open>auto simp add: handle_def Let_def sessionInv_def currentView_def
      handleVisibilityChange_def handleAnswerSelect_def handleClearResponse_def
      handleMarkForReviewAndNext_def handleMarkForReview_def handleSaveAndNext_def
      handleNavigateToQuestion_def handleNextSection_def headerButtonClick_def
      handleCodingSubmit_def split: option.split list.split if_splits\<close>)

lemma sessionInv_step: "sessionInv t w \<Longrightarrow> sessionInv t (step t startTime ne w)"
  by (simp add: step_def sessionInv_handle sessionInv_violationEffect)

lemma sessionInv_run: "sessionInv t w \<Longrightarrow> sessionInv t (run t startTime evs w)"
  by (induction evs arbitrary: w) (simp_all add: sessionInv_step)

lemma sessionInv_session: "sessionInv t (run t startTime evs (mount t saved))"
  by (simp add: sessionInv_run sessionInv_mount)

subsection \<open>Forced transition into the coding section\<close>

lemma expiry_enters_coding:
  assumes inv: "sessionInv t w" and coding: "codingQuestions t = Some (c # cs)"
    and hc: "hasCoding t"
    and started: "\<not> showInstructions (st w)" and mcq: "\<not> mcqCompleted (st w)"
    and expiring: "timeLeft (st w) \<le> 1"
  shows "mcqCompleted (st (step t startTime (now, Tick fs) w))"
    and "currentView t (st (step t startTime (now, Tick fs) w)) = CodingView"
    and "selectedCodingQuestionId (st (step t startTime (now, Tick fs) w)) = codingKey c"
    and "submissions (step t startTime (now, Tick fs) w) = submissions w"
proof -
  from inv started mcq have r: "\<not> submitting (timerRender w)" "\<not> mcqCompleted (timerRender w)"
    by (auto simp add: sessionInv_def)
  have h: "handle t startTime now (Tick fs) w =
      upd (\<lambda>s. s\<lparr>timeLeft := 0\<rparr>)
        (upd (selectFirstCoding t)
          (upd (\<lambda>s. s\<lparr>mcqCompleted := True, showCodingSection := True\<rparr>)
             (emit (Console TimeExpiredToCoding) w)))"
    using r hc started expiring
    by (simp add: handle_def tick_def timerUpdater_def handleAutoSubmit_def Let_def)
  have e: "step t startTime (now, Tick fs) w = handle t startTime now (Tick fs) w"
    by (simp add: step_def h violationEffect_def)
  show "mcqCompleted (st (step t startTime (now, Tick fs) w))"
    by (simp add: e h)
  show "currentView t (st (step t startTime (now, Tick fs) w)) = CodingView"
    using started by (simp add: e h currentView_def)
  show "selectedCodingQuestionId (st (step t startTime (now, Tick fs) w)) = codingKey c"
    by (simp add: e h selectFirstCoding_selects [OF coding])
  show "submissions (step t startTime (now, Tick fs) w) = submissions w"
    by (simp add: e h submissions_def)
qed

lemma third_violation_enters_coding:
  assumes inv: "sessionInv t w" and coding: "codingQuestions t = Some (c # cs)"
    and hc: "hasCoding t"
    and started: "\<not> showInstructions (st w)" and mcq: "\<not> mcqCompleted (st w)"
    and two: "2 \<le> violations (st w)"
  shows "mcqCompleted (st (step t startTime (now, Hide) w))"
    and "currentView t (st (step t startTime (now, Hide) w)) = CodingView"
    and "selectedCodingQuestionId (st (step t startTime (now, Hide) w)) = codingKey c"
    and "submissions (step t startTime (now, Hide) w) = submissions w"
proof -
  from inv hc mcq have ns: "\<not> submitting (st w)"
    by (auto simp add: sessionInv_def)
  have e: "step t startTime (now, Hide) w =
      upd (\<lambda>s. s\<lparr>submitting := False\<rparr>)
        (upd (selectFirstCoding t)
          (upd (\<lambda>s. s\<lparr>mcqCompleted := True, showCodingSection := True\<rparr>)
            (emit (Console ViolationsToCoding)
              (upd (\<lambda>s. s\<lparr>submitting := True\<rparr>)
                (upd (\<lambda>s. s\<lparr>violations := violations (st w) + 1\<rparr>)
                  (emit (Alert (violationAlert (violations (st w) + 1))) w))))))"
    using ns hc started mcq two
    by (simp add: step_def handle_def handleVisibilityChange_def violationEffect_def
        autoSubmitTest_def Let_def)
  show "mcqCompleted (st (step t startTime (now, Hide) w))"
    by (simp add: e)
  show "currentView t (st (step t startTime (now, Hide) w)) = CodingView"
    using started by (simp add: e currentView_def)
  show "selectedCodingQuestionId (st (step t startTime (now, Hide) w)) = codingKey c"
    by (simp add: e selectFirstCoding_selects [OF coding])
  show "submissions (step t startTime (now, Hide) w) = submissions w"
    by (simp add: e submissions_def)
qed

text \<open>
  Claim C2. In every session whose test has a coding section with at least one coding
  question, once the test has started and while \<open>mcqCompleted\<close> is false, the firing of the
  interval at one second or less of remaining time, and likewise the tab-hide event that
  brings the violation count to three, sets \<open>mcqCompleted\<close>, shows the coding section with
  the first coding question's key selected, and adds no call of \<open>onSubmit\<close>.
\<close>

theorem forced_transition_enters_coding:
  assumes "hasCoding t"
    and "w = run t startTime evs (mount t saved)"
    and "\<not> showInstructions (st w)"
    and "\<not> mcqCompleted (st w)"
  shows "\<exists>c cs. codingQuestions t = Some (c # cs) \<and>
     (timeLeft (st w) \<le> 1 \<longrightarrow>
        mcqCompleted (st (step t startTime (now, Tick fs) w)) \<and>
        currentView t (st (step t startTime (now, Tick fs) w)) = CodingView \<and>
        selectedCodingQuestionId (st (step t startTime (now, Tick fs) w)) = codingKey c \<and>
        submissions (step t startTime (now, Tick fs) w) = submissions w) \<and>
     (2 \<le> violations (st w) \<longrightarrow>
        mcqCompleted (st (step t startTime (now, Hide) w)) \<and>
        currentView t (st (step t startTime (now, Hide) w)) = CodingView \<and>
        selectedCodingQuestionId (st (step t startTime (now, Hide) w)) = codingKey c \<and>
        submissions (step t startTime (now, Hide) w) = submissions w)"
proof -
  from assms(1) obtain c cs where coding: "codingQuestions t = Some (c # cs)"
    using hasCoding_first by blast
  have inv: "sessionInv t w"
    using assms(2) by (simp add: sessionInv_session)
  show ?thesis
    using coding
      expiry_enters_coding [OF inv coding assms(1) assms(3) assms(4),
        where startTime = startTime and now = now and fs = fs]
      third_violation_enters_coding [OF inv coding assms(1) assms(3) assms(4),
        where startTime = startTime and now = now]
    by simp
qed

lemma codingAtLastSecond_facts:
  "hasCoding codingTest" "\<not> showInstructions (st codingAtLastSecond)"
  "\<not> mcqCompleted (st codingAtLastSecond)" "timeLeft (st codingAtLastSecond) = 1"
  "violations (st codingAtLastSecond) = 2"
  by code_simp+

theorem forced_transition_enters_coding_witness:
  "hasCoding codingTest \<and> \<not> showInstructions (st codingAtLastSecond) \<and>
   \<not> mcqCompleted (st codingAtLastSecond) \<and> timeLeft (st codingAtLastSecond) \<le> 1 \<and>
   2 \<le> violations (st codingAtLastSecond) \<and>
   mcqCompleted (st (step codingTest 0 (62000, Tick NotFullscreen) codingAtLastSecond)) \<and>
   currentView codingTest (st (step codingTest 0 (62000, Tick NotFullscreen) codingAtLastSecond)) = CodingView \<and>
   selectedCodingQuestionId (st (step codingTest 0 (62000, Tick NotFullscreen) codingAtLastSecond)) = Some ''c1'' \<and>
   submissions (step codingTest 0 (62000, Tick NotFullscreen) codingAtLastSecond) = submissions codingAtLastSecond \<and>
   mcqCompleted (st (step codingTest 0 (62000, Hide) codingAtLastSecond)) \<and>
   currentView codingTest (st (step codingTest 0 (62000, Hide) codingAtLastSecond)) = CodingView \<and>
   selectedCodingQuestionId (st (step codingTest 0 (62000, Hide) codingAtLastSecond)) = Some ''c1'' \<and>
   submissions (step codingTest 0 (62000, Hide) codingAtLastSecond) = submissions codingAtLastSecond"
proof -
  have k: "codingQuestions codingTest = Some (c # cs) \<Longrightarrow> codingKey c = Some ''c1''" for c cs
    by (auto simp add: codingTest_def codingKey_def truthyStr_def)
  from forced_transition_enters_coding [OF codingAtLastSecond_facts(1) codingAtLastSecond_def
      codingAtLastSecond_facts(2) codingAtLastSecond_facts(3), of 62000 NotFullscreen]
  show ?thesis
    using codingAtLastSecond_facts k by auto
qed

subsection \<open>Final submission\<close>

lemma handleSubmit_hands_over:
  assumes "\<not> submitting r" and "fs \<noteq> ExitRejects"
  shows "log (handleSubmit t startTime now fs r w) =
           log w @ [OnSubmit (submissionAnswers t r) ((now - startTime) div 60000)
                      (codingSubmissions r)]"
  using assms by (simp add: handleSubmit_def Let_def)

lemma submissionAnswers_every_question:
  "map questionId (submissionAnswers t r) = map q_id (allQuestions t)"
  by (simp add: submissionAnswers_def comp_def)

lemma submissionAnswers_unanswered:
  assumes "e \<in> set (submissionAnswers t r)" and "\<not> isAnswered r (questionId e)"
  shows "selectedAnswer e = []"
  using assms
  by (auto simp add: submissionAnswers_def answerOrEmpty_def isAnswered_def truthyStr_def
      split: option.splits)

text \<open>
  Claim C1 (the code departs from it). \<open>handleSubmit\<close> hands over every question of the test,
  with the empty string where there is no answer, and whole minutes (the three lemmas
  above). The forced submission at the third violation does not: in a test of three
  questions without a coding section, with only \<open>q1\<close> answered and the third tab-hide two
  minutes after the start, \<open>onSubmit\<close> receives the single entry for \<open>q1\<close> and the elapsed
  time 120, in seconds.
\<close>

theorem violation_submit_omits_unanswered:
  "submissions
     (run flatTest 0
        (acceptAndStart @
           [(5000, AnswerSelect ''A''), (30000, Hide), (60000, Hide), (120000, Hide)])
        (mount flatTest None))
   = [OnSubmit [\<lparr>questionId = ''q1'', selectedAnswer = ''A'', timeSpent = None\<rparr>] 120 []]"
  by code_simp

subsection \<open>The forced transition can fire again\<close>

lemma handle_violationTransitions:
  "violationTransitions (handle t startTime now e w) = violationTransitions w"
proof (cases e)
  case (Tick fs)
  then show ?thesis
    by (simp add: handle_def violationTransitions_def tick_def timerUpdater_def
        handleAutoSubmit_def handleSubmit_def handleSubmit_rejected_def Let_def)
next
  case (Settle ok)
  then show ?thesis
    by (simp add: handle_def violationTransitions_def settle_def Let_def
        handleSubmit_resolved_def handleSubmit_rejected_def autoSubmitTest_resolved_def
        autoSubmitTest_rejected_def split: list.split continuation.split)
next
  case StartTest
  then show ?thesis
    by (simp add: handle_def violationTransitions_def Let_def handleStartTest_def
        split: list.split)
next
  case (ConfirmSubmit fs)
  then show ?thesis
    by (simp add: handle_def violationTransitions_def Let_def handleSubmit_def
        handleSubmit_rejected_def)
qed (simp_all add: handle_def violationTransitions_def Let_def handleVisibilityChange_def
      split: option.split)

lemma handle_mcqCompleted:
  assumes "mcqCompleted (st w)"
  shows "mcqCompleted (st (handle t startTime now e w))"
proof (cases e)
  case (Tick fs)
  with assms show ?thesis
    by (simp add: handle_def tick_def timerUpdater_def handleAutoSubmit_def handleSubmit_def
        handleSubmit_rejected_def Let_def)
next
  case (Settle ok)
  with assms show ?thesis
    by (simp add: handle_def settle_def Let_def handleSubmit_resolved_def
        handleSubmit_rejected_def autoSubmitTest_resolved_def autoSubmitTest_rejected_def
        split: list.split continuation.split)
next
  case StartTest
  with assms show ?thesis
    by (simp add: handle_def Let_def handleStartTest_def split: list.split)
next
  case (ConfirmSubmit fs)
  with assms show ?thesis
    by (simp add: handle_def Let_def handleSubmit_def handleSubmit_rejected_def)
qed (use assms in \<open>simp_all add: handle_def Let_def handleVisibilityChange_def
      handleAnswerSelect_def handleClearResponse_def handleMarkForReviewAndNext_def
      handleMarkForReview_def handleSaveAndNext_def handleNavigateToQuestion_def
      handleNextSection_def headerButtonClick_def handleCodingSubmit_def
      split: option.split list.split\<close>)

lemma violationOnce_step:
  assumes "violationOnce w"
  shows "violationOnce (step t startTime ne w)"
proof -
  let ?w1 = "handle t startTime (fst ne) (snd ne) w"
  have h: "violationOnce ?w1"
    using assms handle_mcqCompleted [of w t startTime "fst ne" "snd ne"]
    by (auto simp add: violationOnce_def handle_violationTransitions)
  then show ?thesis
    by (auto simp add: step_def violationEffect_def autoSubmitTest_def Let_def
        violationOnce_def violationTransitions_def)
qed

lemma violationOnce_run: "violationOnce w \<Longrightarrow> violationOnce (run t startTime evs w)"
  by (induction evs arbitrary: w) (simp_all add: violationOnce_step)

lemma violation_transition_at_most_once:
  "violationTransitions (run t startTime evs (mount t saved)) \<le> 1"
proof -
  have "violationOnce (mount t saved)"
    by (simp add: violationOnce_def violationTransitions_def mount_def)
  from violationOnce_run [OF this] show ?thesis
    by (simp add: violationOnce_def)
qed

text \<open>
  Claim C3 (the code departs from it). The violation effect reads the current
  \<open>mcqCompleted\<close>, so by itself it forces the transition at most once however many tab-hide
  events follow (\<open>violation_transition_at_most_once\<close>). But the interval calls the
  \<open>handleAutoSubmit\<close> of the render that started the test, in which \<open>mcqCompleted\<close> is still
  false. In a test with one question and a coding
  section, three tab-hide events force the transition, and the expiry of the clock, sixty
  firings later, forces it a second time.
\<close>

theorem forced_transition_fires_twice:
  "forcedTransitions
     (run codingTest 0
        (acceptAndStart @ [(1000, Hide), (2000, Hide), (3000, Hide)] @ ticks 60 4000)
        (mount codingTest None))
   = 2"
  by code_simp

subsection \<open>Section counts\<close>

text \<open>
  Claim C4 (the code departs from it). \<open>getQuestionStatus\<close> gives a question that is marked
  and not answered the one status \<open>Marked\<close>; \<open>getSectionCounts\<close> counts it both as marked and
  as not answered. In the scenario of the specification (first section of three questions:
  answer the first, mark the second for review, leave the third, reach the end of the
  section) the four counts are 1, 2, 1 and 0, four for three questions.
\<close>

theorem section_counts_overlap:
  "getSectionCounts sectionedTest
     (st (run sectionedTest 0
            (acceptAndStart @
               [(1000, AnswerSelect ''A''), (2000, SaveAndNext),
                (3000, MarkForReviewAndNext), (4000, SaveAndNext)])
            (mount sectionedTest None)))
   = \<lparr>answered = 1, notAnswered = 2, marked = 1, notVisited = 0\<rparr>"
  by code_simp

subsection \<open>Sections are left in order\<close>

lemma handle_section_index:
  "currentSectionIndex (st w) \<le> currentSectionIndex (st (handle t startTime now e w))"
proof (cases e)
  case (Tick fs)
  then show ?thesis
    by (simp add: handle_def tick_def timerUpdater_def handleAutoSubmit_def handleSubmit_def
        handleSubmit_rejected_def Let_def)
next
  case (Settle ok)
  then show ?thesis
    by (simp add: handle_def settle_def Let_def handleSubmit_resolved_def
        handleSubmit_rejected_def autoSubmitTest_resolved_def autoSubmitTest_rejected_def
        split: list.split continuation.split)
next
  case StartTest
  then show ?thesis
    by (simp add: handle_def Let_def handleStartTest_def split: list.split)
next
  case (ConfirmSubmit fs)
  then show ?thesis
    by (simp add: handle_def Let_def handleSubmit_def handleSubmit_rejected_def)
qed (simp_all add: handle_def Let_def handleVisibilityChange_def handleAnswerSelect_def
      handleClearResponse_def handleMarkForReviewAndNext_def handleMarkForReview_def
      handleSaveAndNext_def handleNavigateToQuestion_def handleNextSection_def
      headerButtonClick_def handleCodingSubmit_def split: option.split list.split)

lemma violationEffect_section_index:
  "currentSectionIndex (st (violationEffect t startTime now w)) = currentSectionIndex (st w)"
  by (simp add: violationEffect_def autoSubmitTest_def Let_def)

lemma step_section_index:
  "currentSectionIndex (st w) \<le> currentSectionIndex (st (step t startTime ne w))"
  by (simp add: step_def violationEffect_section_index handle_section_index)

text \<open>
  Claim C5. Whatever events follow, in whatever order, \<open>currentSectionIndex\<close> never becomes
  smaller: after any sequence of events it is at least what it was before.
\<close>

theorem currentSectionIndex_never_decreases:
  "currentSectionIndex (st w) \<le> currentSectionIndex (st (run t startTime evs w))"
proof (induction evs arbitrary: w)
  case Nil
  show ?case by simp
next
  case (Cons ne evs)
  have "currentSectionIndex (st w) \<le> currentSectionIndex (st (step t startTime ne w))"
    by (rule step_section_index)
  also have "\<dots> \<le> currentSectionIndex (st (run t startTime evs (step t startTime ne w)))"
    by (rule Cons.IH)
  finally show ?case by simp
qed

subsection \<open>A rejected submission\<close>

text \<open>
  Claim C6 as stated fails: after the rejection the confirmation dialog is closed. Here the
  user of a test without coding section opens the dialog and confirms, and \<open>onSubmit\<close>
  rejects.
\<close>

theorem rejected_submit_closes_dialog:
  "showSubmitConfirm (st flatAwaitingSubmit) \<and>
   \<not> showSubmitConfirm (st (step flatTest 0 (3000, Settle False) flatAwaitingSubmit))"
  by code_simp

text \<open>
  The rejection is an event, so the violation effect runs after the \<open>catch\<close> block. If the
  third tab-hide arrived while the submission was pending, clearing \<open>submitting\<close> makes the
  effect's guard true and \<open>autoSubmitTest\<close> submits at once: \<open>submitting\<close> is true again and
  \<open>onSubmit\<close> has been called a second time.
\<close>

lemma rejected_submit_with_violation_due:
  "length (submissions flatPendingThirdHide) = 1 \<and>
   submitting (st (step flatTest 0 (6000, Settle False) flatPendingThirdHide)) \<and>
   length (submissions (step flatTest 0 (6000, Settle False) flatPendingThirdHide)) = 2"
  by code_simp

text \<open>
  The \<open>onSubmit\<close> call of \<open>autoSubmitTest\<close> has a \<open>catch\<close> block of its own: it clears
  \<open>submitting\<close> and writes to the console, without an alert, and leaves the checkpoint. The
  guard of the violation effect then holds again, so the effect submits once more; after
  three tab-hides and one rejection \<open>onSubmit\<close> has been called twice and no alert about the
  failure was shown. The amended claim below is about the call made by \<open>handleSubmit\<close>.
\<close>

lemma rejected_auto_submit:
  assumes "pending w = InAutoSubmitTest # ks"
  shows "st (settle False w) = (st w)\<lparr>submitting := False\<rparr> \<and>
         storage (settle False w) = storage w \<and>
         log (settle False w) = log w @ [Console AutoSubmitError] \<and>
         pending (settle False w) = ks"
  using assms by (simp add: settle_def autoSubmitTest_rejected_def Let_def)

lemma rejected_auto_submit_retries:
  "submitting (st flatViolationRejected) \<and>
   length (submissions flatViolationRejected) = 2 \<and>
   Alert SubmitFailed \<notin> set (log flatViolationRejected)"
  by code_simp

text \<open>
  Claim C6, amended. When the \<open>onSubmit\<close> call of \<open>handleSubmit\<close> rejects and the violation
  auto-submit is not due (fewer than three violations, or \<open>mcqCompleted\<close> set), the session
  after the rejection event has \<open>submitting\<close> cleared and the confirmation dialog closed,
  every other field of the session keeps its value, the stored checkpoint is left as it is,
  and the user is told by an alert.
\<close>

theorem rejected_submit_keeps_session:
  assumes "pending w = InHandleSubmit # ks"
    and "violations (st w) < 3 \<or> mcqCompleted (st w)"
  shows "st (step t startTime (now, Settle False) w) =
           (st w)\<lparr>submitting := False, showSubmitConfirm := False\<rparr> \<and>
         storage (step t startTime (now, Settle False) w) = storage w \<and>
         log (step t startTime (now, Settle False) w) =
           log w @ [Console SubmitError, Alert SubmitFailed] \<and>
         pending (step t startTime (now, Settle False) w) = ks"
  using assms
  by (auto simp add: step_def handle_def settle_def handleSubmit_rejected_def Let_def
      violationEffect_def)

lemma flatResumedAwaitingSubmit_facts:
  "pending flatResumedAwaitingSubmit = InHandleSubmit # []"
  "violations (st flatResumedAwaitingSubmit) = 0"
  "storage flatResumedAwaitingSubmit = Some (Parsed (snapshot 0 (st flatAfterTwoAnswers)))"
  "submitting (st flatResumedAwaitingSubmit)"
  "showSubmitConfirm (st flatResumedAwaitingSubmit)"
  by code_simp+

theorem rejected_submit_keeps_session_witness:
  "pending flatResumedAwaitingSubmit = InHandleSubmit # [] \<and>
   (violations (st flatResumedAwaitingSubmit) < 3 \<or> mcqCompleted (st flatResumedAwaitingSubmit)) \<and>
   submitting (st flatResumedAwaitingSubmit) \<and>
   st (step flatTest 0 (3000, Settle False) flatResumedAwaitingSubmit) =
     (st flatResumedAwaitingSubmit)\<lparr>submitting := False, showSubmitConfirm := False\<rparr> \<and>
   storage (step flatTest 0 (3000, Settle False) flatResumedAwaitingSubmit) =
     Some (Parsed (snapshot 0 (st flatAfterTwoAnswers))) \<and>
   log (step flatTest 0 (3000, Settle False) flatResumedAwaitingSubmit) =
     log flatResumedAwaitingSubmit @ [Console SubmitError, Alert SubmitFailed] \<and>
   pending (step flatTest 0 (3000, Settle False) flatResumedAwaitingSubmit) = []"
proof -
  have v: "violations (st flatResumedAwaitingSubmit) < 3 \<or>
           mcqCompleted (st flatResumedAwaitingSubmit)"
    by (simp add: flatResumedAwaitingSubmit_facts(2))
  from rejected_submit_keeps_session [OF flatResumedAwaitingSubmit_facts(1) v, of flatTest 0 3000]
  show ?thesis
    using flatResumedAwaitingSubmit_facts v by simp
qed

subsection \<open>Checkpoint\<close>

text \<open>
  Claim C7 as stated fails on a selected coding question whose key is the empty string:
  \<open>progress.selectedCodingQuestionId || null\<close> restores it as \<open>null\<close>.
\<close>

theorem empty_key_not_restored:
  "selectedCodingQuestionId
     (st (run emptyKeyTest 0 (acceptAndStart @ [(1000, HeaderButton), (2000, BeforeUnload)])
            (mount emptyKeyTest None))) = Some [] \<and>
   selectedCodingQuestionId
     (st (mount emptyKeyTest
            (storage (run emptyKeyTest 0
               (acceptAndStart @ [(1000, HeaderButton), (2000, BeforeUnload)])
               (mount emptyKeyTest None))))) = None"
  by code_simp

text \<open>
  Claim C7, amended. When \<open>handleBeforeUnload\<close> saves (the test has started and nothing is
  being submitted) and the selected coding question is \<open>null\<close> or a non-empty string, the
  next mount restores \<open>answers\<close>, \<open>markedForReview\<close>, \<open>visitedQuestions\<close>,
  \<open>currentSectionIndex\<close>, \<open>currentQuestionIndex\<close>, \<open>violations\<close>, \<open>mcqCompleted\<close> and
  \<open>selectedCodingQuestionId\<close> as they were.
\<close>

theorem checkpoint_round_trip:
  assumes "\<not> showInstructions s" and "\<not> submitting s"
    and "selectedCodingQuestionId s \<noteq> Some []"
  shows "answers (st (mount t (handleBeforeUnload startTime s old))) = answers s \<and>
         markedForReview (st (mount t (handleBeforeUnload startTime s old))) = markedForReview s \<and>
         visitedQuestions (st (mount t (handleBeforeUnload startTime s old))) = visitedQuestions s \<and>
         currentSectionIndex (st (mount t (handleBeforeUnload startTime s old))) = currentSectionIndex s \<and>
         currentQuestionIndex (st (mount t (handleBeforeUnload startTime s old))) = currentQuestionIndex s \<and>
         violations (st (mount t (handleBeforeUnload startTime s old))) = violations s \<and>
         mcqCompleted (st (mount t (handleBeforeUnload startTime s old))) = mcqCompleted s \<and>
         selectedCodingQuestionId (st (mount t (handleBeforeUnload startTime s old)))
           = selectedCodingQuestionId s"
  using assms
  by (cases "selectedCodingQuestionId s")
     (simp_all add: mount_def handleBeforeUnload_def restoreProgress_def snapshot_def
        initialState_def truthyStr_def)

lemma flatAfterTwoAnswers_facts:
  "\<not> showInstructions (st flatAfterTwoAnswers)" "\<not> submitting (st flatAfterTwoAnswers)"
  "selectedCodingQuestionId (st flatAfterTwoAnswers) \<noteq> Some []"
  "answers (st flatAfterTwoAnswers) = [(''q1'', ''A''), (''q2'', ''B'')]"
  by code_simp+

theorem checkpoint_round_trip_witness:
  "\<not> showInstructions (st flatAfterTwoAnswers) \<and> \<not> submitting (st flatAfterTwoAnswers) \<and>
   selectedCodingQuestionId (st flatAfterTwoAnswers) \<noteq> Some [] \<and>
   answers (st (mount flatTest (handleBeforeUnload 0 (st flatAfterTwoAnswers) None)))
     = [(''q1'', ''A''), (''q2'', ''B'')] \<and>
   visitedQuestions (st (mount flatTest (handleBeforeUnload 0 (st flatAfterTwoAnswers) None)))
     = visitedQuestions (st flatAfterTwoAnswers) \<and>
   currentQuestionIndex (st (mount flatTest (handleBeforeUnload 0 (st flatAfterTwoAnswers) None)))
     = currentQuestionIndex (st flatAfterTwoAnswers)"
  using checkpoint_round_trip [OF flatAfterTwoAnswers_facts(1) flatAfterTwoAnswers_facts(2)
      flatAfterTwoAnswers_facts(3), of flatTest 0 None]
    flatAfterTwoAnswers_facts
  by simp

text \<open>
  Claim C10. Whatever is stored, after mount the session differs from the initial state in
  at most the eight restored fields: overwriting those eight in both gives equal states. In
  particular the remaining time is \<open>test.duration * 60\<close> and \<open>codingSubmissions\<close> is empty,
  whatever \<open>timeLeft\<close> and \<open>codingSubmissions\<close> the checkpoint holds.
\<close>

theorem restore_touches_eight_fields:
  "timeLeft (st (mount t saved)) = duration t * 60 \<and>
   codingSubmissions (st (mount t saved)) = [] \<and>
   (st (mount t saved))
     \<lparr>answers := a, markedForReview := m, visitedQuestions := v, currentSectionIndex := i,
      currentQuestionIndex := j, violations := n, mcqCompleted := b,
      selectedCodingQuestionId := c\<rparr>
   = (initialState t)
     \<lparr>answers := a, markedForReview := m, visitedQuestions := v, currentSectionIndex := i,
      currentQuestionIndex := j, violations := n, mcqCompleted := b,
      selectedCodingQuestionId := c\<rparr>"
  by (simp add: mount_def restoreProgress_def initialState_def split: option.split stored.split)

subsection \<open>Clock\<close>



















subsection \<open>Answered and visited\<close>

lemma answeredVisited_iff:
  "answeredVisited s \<longleftrightarrow> (\<forall>q \<in> fst ` set (answers s). isVisited s q)"
  by (auto simp add: answeredVisited_def list_all_iff)

lemma ledgerInvI:
  assumes "\<not> showInstructions s"
    and "\<And>q. q \<in> fst ` set (answers s) \<Longrightarrow> isVisited s q"
    and "\<And>q. getCurrentQuestion t s = Some q \<Longrightarrow> isVisited s (q_id q)"
  shows "ledgerInv t s"
  using assms by (auto simp add: ledgerInv_def answeredVisited_iff split: option.split)

lemma ledgerInv_answered:
  "ledgerInv t s \<Longrightarrow> \<not> showInstructions s \<Longrightarrow> q \<in> fst ` set (answers s) \<Longrightarrow> isVisited s q"
  by (auto simp add: ledgerInv_def answeredVisited_iff)

lemma ledgerInv_current:
  "ledgerInv t s \<Longrightarrow> \<not> showInstructions s \<Longrightarrow> getCurrentQuestion t s = Some q \<Longrightarrow>
   isVisited s (q_id q)"
  by (simp add: ledgerInv_def)

lemma selectFirstCoding_ledger [simp]:
  "answers (selectFirstCoding t s) = answers s"
  "visitedQuestions (selectFirstCoding t s) = visitedQuestions s"
  "currentQuestionIndex (selectFirstCoding t s) = currentQuestionIndex s"
  by (simp_all add: selectFirstCoding_def split: option.split list.split)

lemma getCurrentSectionQuestions_cong:
  assumes "currentSectionIndex s' = currentSectionIndex s"
  shows "getCurrentSectionQuestions t s' = getCurrentSectionQuestions t s"
  unfolding getCurrentSectionQuestions_def getCurrentSection_def by (simp only: assms)

lemma getCurrentQuestion_cong:
  assumes "currentSectionIndex s' = currentSectionIndex s"
    and "currentQuestionIndex s' = currentQuestionIndex s"
  shows "getCurrentQuestion t s' = getCurrentQuestion t s"
  unfolding getCurrentQuestion_def getCurrentSectionQuestions_cong [OF assms(1)]
  by (simp only: assms)

text \<open>The invariant reads five fields only.\<close>

lemma ledgerInv_cong:
  assumes "showInstructions s' = showInstructions s" "answers s' = answers s"
    "visitedQuestions s' = visitedQuestions s" "currentSectionIndex s' = currentSectionIndex s"
    "currentQuestionIndex s' = currentQuestionIndex s"
  shows "ledgerInv t s' = ledgerInv t s"
proof -
  have q: "getCurrentQuestion t s' = getCurrentQuestion t s"
    by (rule getCurrentQuestion_cong) (simp_all only: assms)
  have v: "isVisited s' = isVisited s"
    by (simp add: fun_eq_iff isVisited_def assms)
  show ?thesis
    by (simp add: ledgerInv_def answeredVisited_def q v assms cong: option.case_cong)
qed

lemma ledgerInv_violationEffect:
  "ledgerInv t (st (violationEffect t startTime now w)) = ledgerInv t (st w)"
  by (rule ledgerInv_cong) (simp_all add: violationEffect_def autoSubmitTest_def Let_def)

lemma ledgerInv_tick:
  "ledgerInv t (st (tick t startTime now fs w)) = ledgerInv t (st w)"
  by (rule ledgerInv_cong)
     (simp_all add: tick_def timerUpdater_def handleAutoSubmit_def handleSubmit_def
        handleSubmit_rejected_def Let_def)

lemma ledgerInv_settle:
  "ledgerInv t (st (settle ok w)) = ledgerInv t (st w)"
  by (rule ledgerInv_cong)
     (simp_all add: settle_def Let_def handleSubmit_resolved_def handleSubmit_rejected_def
        autoSubmitTest_resolved_def autoSubmitTest_rejected_def
        split: list.split continuation.split)

lemma ledgerInv_handleSubmit:
  "ledgerInv t (st (handleSubmit t startTime now fs r w)) = ledgerInv t (st w)"
  by (rule ledgerInv_cong) (simp_all add: handleSubmit_def handleSubmit_rejected_def Let_def)

lemma isVisited_update:
  "isVisited (s\<lparr>visitedQuestions := AList.update k True (visitedQuestions s)\<rparr>) q
     \<longleftrightarrow> q = k \<or> isVisited s q"
  by (simp add: isVisited_def truthyBool_def update_conv')

lemma ledgerInv_goto:
  assumes "ledgerInv t s" "\<not> showInstructions s" "i < length (getCurrentSectionQuestions t s)"
  shows "ledgerInv t (s\<lparr>currentQuestionIndex := i,
            visitedQuestions := AList.update (q_id (getCurrentSectionQuestions t s ! i)) True (visitedQuestions s)\<rparr>)"
  using assms
  by (auto simp add: ledgerInv_def answeredVisited_iff isVisited_def truthyBool_def update_conv'
      getCurrentQuestion_def getCurrentSectionQuestions_def getCurrentSection_def Let_def
      split: option.splits if_splits)


lemma ledgerInv_handleSaveAndNext:
  assumes "ledgerInv t s" "\<not> showInstructions s"
  shows "ledgerInv t (handleSaveAndNext t s)"
proof (cases "int (currentQuestionIndex s) < int (length (getCurrentSectionQuestions t s)) - 1")
  case True
  then have "currentQuestionIndex s + 1 < length (getCurrentSectionQuestions t s)" by linarith
  from ledgerInv_goto [OF assms this] True show ?thesis
    by (simp add: handleSaveAndNext_def Let_def)
next
  case False
  have "ledgerInv t (s\<lparr>showSectionComplete := True\<rparr>) = ledgerInv t s"
    by (rule ledgerInv_cong) simp_all
  with assms False show ?thesis
    by (simp add: handleSaveAndNext_def Let_def)
qed

lemma ledgerInv_handleMarkForReview:
  "ledgerInv t (handleMarkForReview t s) = ledgerInv t s"
  by (rule ledgerInv_cong) (simp_all add: handleMarkForReview_def split: option.split)

lemma showInstructions_handleMarkForReview [simp]:
  "showInstructions (handleMarkForReview t s) = showInstructions s"
  by (simp add: handleMarkForReview_def split: option.split)

lemma ledgerInv_handleNavigateToQuestion:
  assumes "ledgerInv t s" "\<not> showInstructions s" "i < length (getCurrentSectionQuestions t s)"
  shows "ledgerInv t (handleNavigateToQuestion t i s)"
  using ledgerInv_goto [OF assms] assms(3) by (simp add: handleNavigateToQuestion_def Let_def)

lemma ledgerInv_handleAnswerSelect:
  assumes "ledgerInv t s" "\<not> showInstructions s" "getCurrentQuestion t s = Some q"
  shows "ledgerInv t (handleAnswerSelect (q_id q) a s)"
proof (rule ledgerInvI)
  let ?s' = "handleAnswerSelect (q_id q) a s"
  have c: "getCurrentQuestion t ?s' = getCurrentQuestion t s"
    by (rule getCurrentQuestion_cong) (simp_all add: handleAnswerSelect_def)
  have v: "isVisited ?s' = isVisited s"
    by (simp add: fun_eq_iff isVisited_def handleAnswerSelect_def)
  show "\<not> showInstructions ?s'"
    using assms(2) by (simp add: handleAnswerSelect_def)
  show "isVisited ?s' k" if "k \<in> fst ` set (answers ?s')" for k
  proof -
    from that have "k = q_id q \<or> k \<in> fst ` set (answers s)"
      by (simp add: handleAnswerSelect_def dom_update)
    then show ?thesis
      using ledgerInv_answered [OF assms(1,2)] ledgerInv_current [OF assms] by (auto simp add: v)
  qed
  show "isVisited ?s' (q_id k)" if "getCurrentQuestion t ?s' = Some k" for k
    using that ledgerInv_current [OF assms(1,2)] by (simp add: c v)
qed

lemma ledgerInv_handleClearResponse:
  assumes "ledgerInv t s" "\<not> showInstructions s"
  shows "ledgerInv t (handleClearResponse t s)"
proof (cases "getCurrentQuestion t s")
  case None
  with assms show ?thesis by (simp add: handleClearResponse_def)
next
  case (Some q)
  let ?s' = "handleClearResponse t s"
  have c: "getCurrentQuestion t ?s' = getCurrentQuestion t s"
    by (rule getCurrentQuestion_cong) (simp_all add: handleClearResponse_def Some)
  have v: "isVisited ?s' = isVisited s"
    by (simp add: fun_eq_iff isVisited_def handleClearResponse_def Some)
  have a: "fst ` set (answers ?s') \<subseteq> fst ` set (answers s)"
    by (simp add: handleClearResponse_def Some dom_delete_subset)
  show ?thesis
  proof (rule ledgerInvI)
    show "\<not> showInstructions ?s'"
      using assms(2) by (simp add: handleClearResponse_def Some)
    show "isVisited ?s' k" if "k \<in> fst ` set (answers ?s')" for k
      using that a ledgerInv_answered [OF assms] by (auto simp add: v)
    show "isVisited ?s' (q_id k)" if "getCurrentQuestion t ?s' = Some k" for k
      using that ledgerInv_current [OF assms] by (simp add: c v)
  qed
qed

lemma ledgerInv_handleNextSection:
  assumes "ledgerInv t s" "\<not> showInstructions s"
  shows "ledgerInv t (handleNextSection t s)"
proof (cases "hasSections t \<and>
         (case sections t of None \<Rightarrow> False
          | Some secs \<Rightarrow> int (currentSectionIndex s) < int (length secs) - 1)")
  case True
  then obtain secs where secs: "sections t = Some secs" "hasSections t"
    and lt: "currentSectionIndex s + 1 < length secs"
    by (cases "sections t") auto
  let ?qs = "sec_questions (secs ! (currentSectionIndex s + 1))"
  show ?thesis
  proof (cases ?qs)
    case Nil
    with True secs lt assms show ?thesis
      by (auto simp add: handleNextSection_def Let_def ledgerInv_def answeredVisited_iff
          isVisited_def getCurrentQuestion_def getCurrentSectionQuestions_def
          getCurrentSection_def)
  next
    case (Cons q qs)
    with True secs lt assms show ?thesis
      by (auto simp add: handleNextSection_def Let_def ledgerInv_def answeredVisited_iff
          isVisited_def truthyBool_def update_conv' getCurrentQuestion_def
          getCurrentSectionQuestions_def getCurrentSection_def)
  qed
next
  case False
  have "ledgerInv t (handleNextSection t s) = ledgerInv t s"
    by (rule ledgerInv_cong) (use False in \<open>auto simp add: handleNextSection_def\<close>)
  with assms show ?thesis by simp
qed

lemma ledgerInv_handleStartTest:
  assumes "ledgerInv t (st w)" "showInstructions (st w)" "agreedToTerms (st w)"
  shows "ledgerInv t (st (handleStartTest t w))"
proof (rule ledgerInvI)
  let ?s' = "st (handleStartTest t w)"
  from assms have init: "answers (st w) = []" "currentSectionIndex (st w) = 0"
      "currentQuestionIndex (st w) = 0"
    by (simp_all add: ledgerInv_def)
  have f: "answers ?s' = []" "currentSectionIndex ?s' = 0" "currentQuestionIndex ?s' = 0"
      "\<not> showInstructions ?s'"
    using assms(3) init by (simp_all add: handleStartTest_def Let_def split: list.split)
  have qs: "getCurrentSectionQuestions t ?s' = getCurrentSectionQuestions t (st w)"
    by (rule getCurrentSectionQuestions_cong) (simp add: f init)
  show "\<not> showInstructions ?s'" by (rule f)
  show "isVisited ?s' k" if "k \<in> fst ` set (answers ?s')" for k
    using that by (simp add: f)
  show "isVisited ?s' (q_id k)" if "getCurrentQuestion t ?s' = Some k" for k
  proof (cases "getCurrentSectionQuestions t (st w)")
    case Nil
    with that show ?thesis by (simp add: getCurrentQuestion_def qs)
  next
    case (Cons q rest)
    with that have "k = q" by (simp add: getCurrentQuestion_def qs f)
    moreover have "visitedQuestions ?s' = [(q_id q, True)]"
      using assms(3) Cons by (simp add: handleStartTest_def Let_def)
    ultimately show ?thesis by (simp add: isVisited_def truthyBool_def)
  qed
qed

lemma ledgerInv_handle:
  assumes "ledgerInv t (st w)"
  shows "ledgerInv t (st (handle t startTime now e w))"
proof (cases e)
  case (Tick fs)
  with assms show ?thesis by (simp add: handle_def Let_def ledgerInv_tick)
next
  case (Settle ok)
  with assms show ?thesis by (simp add: handle_def Let_def ledgerInv_settle)
next
  case (ConfirmSubmit fs)
  with assms show ?thesis by (simp add: handle_def Let_def ledgerInv_handleSubmit)
next
  case StartTest
  with assms show ?thesis
    by (simp add: handle_def Let_def currentView_def ledgerInv_handleStartTest split: if_splits)
next
  case (AnswerSelect a)
  with assms show ?thesis
    by (auto simp add: handle_def Let_def currentView_def ledgerInv_handleAnswerSelect
        split: option.split if_splits)
next
  case ClearResponse
  with assms show ?thesis
    by (auto simp add: handle_def Let_def currentView_def ledgerInv_handleClearResponse
        split: option.split if_splits)
next
  case MarkForReviewAndNext
  with assms show ?thesis
    by (auto simp add: handle_def Let_def currentView_def handleMarkForReviewAndNext_def
        ledgerInv_handleSaveAndNext ledgerInv_handleMarkForReview split: if_splits)
next
  case SaveAndNext
  with assms show ?thesis
    by (auto simp add: handle_def Let_def currentView_def ledgerInv_handleSaveAndNext
        split: if_splits)
next
  case Previous
  with assms show ?thesis
    by (auto simp add: handle_def Let_def currentView_def getCurrentQuestion_def
        intro!: ledgerInv_handleNavigateToQuestion split: if_splits)
next
  case (NavigateTo i)
  with assms show ?thesis
    by (auto simp add: handle_def Let_def currentView_def ledgerInv_handleNavigateToQuestion
        split: if_splits)
next
  case NextSection
  with assms show ?thesis
    by (auto simp add: handle_def Let_def currentView_def ledgerInv_handleNextSection
        split: if_splits)
next
  case (ToggleAgree b)
  have "ledgerInv t ((st w)\<lparr>agreedToTerms := b\<rparr>) = ledgerInv t (st w)"
    by (rule ledgerInv_cong) simp_all
  with assms ToggleAgree show ?thesis by (simp add: handle_def Let_def)
next
  case ExitClick
  with assms show ?thesis by (simp add: handle_def Let_def)
next
  case Hide
  have "ledgerInv t (st (handleVisibilityChange w)) = ledgerInv t (st w)"
    by (rule ledgerInv_cong) (simp_all add: handleVisibilityChange_def Let_def)
  with assms Hide show ?thesis by (simp add: handle_def Let_def)
next
  case BeforeUnload
  with assms show ?thesis by (simp add: handle_def Let_def)
next
  case ReviewAnswers
  have "ledgerInv t ((st w)\<lparr>showSectionComplete := False\<rparr>) = ledgerInv t (st w)"
    by (rule ledgerInv_cong) simp_all
  with assms ReviewAnswers show ?thesis by (simp add: handle_def Let_def)
next
  case HeaderButton
  have "ledgerInv t (headerButtonClick t (st w)) = ledgerInv t (st w)"
    by (rule ledgerInv_cong) (simp_all add: headerButtonClick_def)
  with assms HeaderButton show ?thesis by (simp add: handle_def Let_def)
next
  case CodingSubmitButton
  have "ledgerInv t ((st w)\<lparr>showSubmitConfirm := True\<rparr>) = ledgerInv t (st w)"
    by (rule ledgerInv_cong) simp_all
  with assms CodingSubmitButton show ?thesis by (simp add: handle_def Let_def)
next
  case (SelectCoding i)
  have "ledgerInv t ((st w)\<lparr>selectedCodingQuestionId := k\<rparr>) = ledgerInv t (st w)" for k
    by (rule ledgerInv_cong) simp_all
  with assms SelectCoding show ?thesis by (simp add: handle_def Let_def split: option.split)
next
  case (CodingSubmit sid score)
  have "ledgerInv t (handleCodingSubmit sid score (st w)) = ledgerInv t (st w)"
    by (rule ledgerInv_cong) (simp_all add: handleCodingSubmit_def)
  with assms CodingSubmit show ?thesis by (simp add: handle_def Let_def)
next
  case CancelSubmit
  have "ledgerInv t ((st w)\<lparr>showSubmitConfirm := False\<rparr>) = ledgerInv t (st w)"
    by (rule ledgerInv_cong) simp_all
  with assms CancelSubmit show ?thesis by (simp add: handle_def Let_def)
qed

lemma ledgerInv_run:
  "ledgerInv t (st w) \<Longrightarrow> ledgerInv t (st (run t startTime evs w))"
  by (induction evs arbitrary: w) (simp_all add: step_def ledgerInv_violationEffect ledgerInv_handle)

lemma ledgerInv_fresh_mount: "ledgerInv t (st (mount t None))"
  by (simp add: ledgerInv_def mount_def restoreProgress_def initialState_def)

lemma fresh_session_answered_visited:
  assumes "w = run t startTime evs (mount t None)" and "\<not> showInstructions (st w)"
    and "q \<in> fst ` set (answers (st w))"
  shows "isVisited (st w) q"
  using ledgerInv_answered [OF ledgerInv_run [OF ledgerInv_fresh_mount, of t startTime evs]] assms
  by simp

text \<open>
  Claim C9 (the code departs from it). In a session mounted without a checkpoint every
  answered question is visited (\<open>fresh_session_answered_visited\<close>). On resume,
  \<open>handleStartTest\<close> replaces \<open>visitedQuestions\<close> by the entry of the first question, where
  every other handler adds to it. A user who answers \<open>q1\<close> and \<open>q2\<close>, reloads the page and
  starts again has the answers restored and \<open>q2\<close> answered but not visited.
\<close>

theorem restart_forgets_visited:
  "isAnswered
     (st (run flatTest 0 acceptAndStart
            (mount flatTest
               (storage (run flatTest 0 [(4000, BeforeUnload)] flatAfterTwoAnswers))))) ''q2'' \<and>
   \<not> isVisited
     (st (run flatTest 0 acceptAndStart
            (mount flatTest
               (storage (run flatTest 0 [(4000, BeforeUnload)] flatAfterTwoAnswers))))) ''q2''"
  by code_simp

end
